theory Spec2Isabelle
  imports Main "HOL-Library.Word"
begin

section \<open>Data model of \<^verbatim>\<open>RandomStringGeneratorBase<TChar>\<close>\<close>

text \<open>
  The embedding follows \<^verbatim>\<open>src/main.cpp\<close>. The machine types are those of an LP64
  platform: \<^verbatim>\<open>int\<close> is a 32-bit two's complement value, \<^verbatim>\<open>size_t\<close> an unsigned
  64-bit value. The increment of the loop counter past the largest \<^verbatim>\<open>int\<close>, which the
  C++ standard leaves undefined, wraps around (modulo \<open>2 ^ 32\<close>), as the hardware does.
  A symbol type \<^verbatim>\<open>TChar\<close> is any type with a zero, the value of \<^verbatim>\<open>TChar()\<close>.
  The seed and random strategies are parameters; the default arguments
  (\<^verbatim>\<open>srand(time(nullptr))\<close> and \<^verbatim>\<open>std::rand() % range\<close>) are two of their values.
\<close>

type_synonym c_int = "32 word"
type_synonym size_t = "64 word"
type_synonym char8 = "8 word"

text \<open>
  The class is a template: every instantiation has its own constructor and therefore its
  own function-local \<^verbatim>\<open>static std::once_flag flag\<close>. The template argument is passed to
  the model of the constructor as a value of type \<open>tchar\<close>.
\<close>

datatype tchar = T_char | T_wchar_t | T_char16_t | T_char32_t

text \<open>
  What a run does to the outside is recorded as a trace of events: a call of the stored
  seed strategy, a call of the stored random strategy with its argument, and an assignment
  to \<^verbatim>\<open>out[i]\<close> with the offset \<open>i\<close>.
\<close>

datatype event = SeedCall | RandCall size_t | Write int

text \<open>
  The process state: one once-flag per instantiation, the state \<open>env\<close> that the two
  \<^verbatim>\<open>std::function\<close> strategies read and change (the state of \<^verbatim>\<open>std::rand\<close> for the
  defaults, captured counters for instrumented strategies), and the trace.
\<close>

record 's process =
  once_flag :: "tchar \<Rightarrow> bool"
  env :: 's
  trace :: "event list"

definition initial_process :: "'s \<Rightarrow> 's process" where
  "initial_process e = \<lparr>once_flag = (\<lambda>T. False), env = e, trace = []\<rparr>"

text \<open>The three private members \<^verbatim>\<open>_charset\<close>, \<^verbatim>\<open>_seed\<close> and \<^verbatim>\<open>_rand\<close>.\<close>

record ('c, 's) generator =
  charset :: "'c list"
  seed :: "'s \<Rightarrow> 's"
  rand :: "size_t \<Rightarrow> 's \<Rightarrow> size_t \<times> 's"

text \<open>
  Undefined behaviour is a value: reading \<^verbatim>\<open>_charset[pos]\<close> with \<open>pos > size()\<close>,
  assigning to \<^verbatim>\<open>out[i]\<close> outside the caller's buffer, and building a string from a
  pointer to data without a terminator. The state at the fault is kept with it.
\<close>

datatype ub = CharsetOutOfRange | BufferOutOfRange | Unterminated

type_synonym ('a, 's) result = "(ub \<times> 's process) + ('a \<times> 's process)"

section \<open>The standard library operations the class uses\<close>

text \<open>\<^verbatim>\<open>std::basic_string::size()\<close>, a \<^verbatim>\<open>size_t\<close>.\<close>

definition size_of :: "'c list \<Rightarrow> size_t" where
  "size_of s = of_nat (length s)"

text \<open>
  \<^verbatim>\<open>std::basic_string::operator[]\<close>: the element at \<open>pos < size()\<close>, a reference to
  \<^verbatim>\<open>TChar()\<close> at \<open>pos = size()\<close>, undefined beyond.
\<close>

definition at :: "'c::zero list \<Rightarrow> size_t \<Rightarrow> 'c option" where
  "at s pos =
     (if unat pos < length s then Some (s ! unat pos)
      else if unat pos = length s then Some 0
      else None)"

text \<open>
  The assignment \<^verbatim>\<open>out[k] = c\<close> into the caller-owned buffer that starts at \<^verbatim>\<open>out\<close>:
  defined for the offsets of the buffer only.
\<close>

definition store :: "'c list \<Rightarrow> int \<Rightarrow> 'c \<Rightarrow> 'c list option" where
  "store out k c = (if 0 \<le> k \<and> k < int (length out) then Some (out[nat k := c]) else None)"

text \<open>
  \<^verbatim>\<open>std::basic_string<TChar>(first, first + n)\<close> over the array or container whose
  elements are \<open>block\<close>: a copy of its first \<open>n\<close> elements.
\<close>

definition basic_string_range :: "'c list \<Rightarrow> nat \<Rightarrow> 'c list" where
  "basic_string_range block n = take n block"

text \<open>
  \<^verbatim>\<open>std::basic_string<TChar>(p)\<close> for a pointer \<open>p\<close> to the elements \<open>block\<close>: the
  elements before the first \<^verbatim>\<open>TChar()\<close>; undefined when there is none.
\<close>

definition basic_string_cstr :: "'c::zero list \<Rightarrow> 'c list option" where
  "basic_string_cstr block =
     (if 0 \<in> set block then Some (takeWhile (\<lambda>c. c \<noteq> 0) block) else None)"

text \<open>The array that a string literal denotes: its characters and the terminator.\<close>

definition string_literal :: "string \<Rightarrow> char8 list" where
  "string_literal s = map of_char s @ [0]"

section \<open>Seeding and construction\<close>

text \<open>\<^verbatim>\<open>void Seed() { _seed(); }\<close>\<close>

definition Seed :: "('c, 's) generator \<Rightarrow> 's process \<Rightarrow> 's process" where
  "Seed g p = p\<lparr>env := seed g (env p), trace := trace p @ [SeedCall]\<rparr>"

text \<open>
  \<^verbatim>\<open>#define SPEEDUP_GENERATOR_BY_DEDICATED_CALL_OF_SEED_RANDOM 0\<close>. The constructor takes
  the value of the macro as its first argument, so that both settings can be stated.
\<close>

definition SPEEDUP_GENERATOR_BY_DEDICATED_CALL_OF_SEED_RANDOM :: nat where
  "SPEEDUP_GENERATOR_BY_DEDICATED_CALL_OF_SEED_RANDOM = 0"

text \<open>
  The primary constructor (lines 41 to 59): the members are initialised, and unless the
  macro is set, \<^verbatim>\<open>std::call_once\<close> runs \<^verbatim>\<open>Seed()\<close> when the flag of this instantiation
  is still clear, and sets it.
\<close>

definition RandomStringGeneratorBase ::
  "nat \<Rightarrow> tchar \<Rightarrow> 'c list \<Rightarrow> ('s \<Rightarrow> 's) \<Rightarrow> (size_t \<Rightarrow> 's \<Rightarrow> size_t \<times> 's) \<Rightarrow> 's process
    \<Rightarrow> ('c, 's) generator \<times> 's process" where
  "RandomStringGeneratorBase speedup T cs sd rn p =
     (let g = \<lparr>charset = cs, seed = sd, rand = rn\<rparr>
      in if speedup = 0 then
           (if once_flag p T then (g, p)
            else (g, (Seed g p)\<lparr>once_flag := (once_flag p)(T := True)\<rparr>))
         else (g, p))"

text \<open>The overload for \<^verbatim>\<open>TChar const (&charsetArray)[size]\<close> (lines 70 to 79).\<close>

definition RandomStringGeneratorBase_array ::
  "nat \<Rightarrow> tchar \<Rightarrow> 'c list \<Rightarrow> ('s \<Rightarrow> 's) \<Rightarrow> (size_t \<Rightarrow> 's \<Rightarrow> size_t \<times> 's) \<Rightarrow> 's process
    \<Rightarrow> ('c, 's) generator \<times> 's process" where
  "RandomStringGeneratorBase_array speedup T charsetArray sd rn p =
     RandomStringGeneratorBase speedup T
       (basic_string_range charsetArray (length charsetArray)) sd rn p"

text \<open>The overload for \<^verbatim>\<open>TChar const *charsetString\<close> (lines 88 to 96).\<close>

definition RandomStringGeneratorBase_cstr ::
  "nat \<Rightarrow> tchar \<Rightarrow> 'c::zero list \<Rightarrow> ('s \<Rightarrow> 's) \<Rightarrow> (size_t \<Rightarrow> 's \<Rightarrow> size_t \<times> 's) \<Rightarrow> 's process
    \<Rightarrow> (('c, 's) generator, 's) result" where
  "RandomStringGeneratorBase_cstr speedup T charsetString sd rn p =
     (case basic_string_cstr charsetString of
        None \<Rightarrow> Inl (Unterminated, p)
      | Some cs \<Rightarrow> Inr (RandomStringGeneratorBase speedup T cs sd rn p))"

text \<open>The overload for a container with random access iterators (lines 105 to 115).\<close>

definition RandomStringGeneratorBase_container ::
  "nat \<Rightarrow> tchar \<Rightarrow> 'c list \<Rightarrow> ('s \<Rightarrow> 's) \<Rightarrow> (size_t \<Rightarrow> 's \<Rightarrow> size_t \<times> 's) \<Rightarrow> 's process
    \<Rightarrow> ('c, 's) generator \<times> 's process" where
  "RandomStringGeneratorBase_container speedup T container sd rn p =
     RandomStringGeneratorBase speedup T
       (basic_string_range container (length container)) sd rn p"

text \<open>
  A run of constructions of one instantiation, one after the other, each with its own
  charset and strategies.
\<close>

type_synonym ('c, 's) ctor_args =
  "'c list \<times> ('s \<Rightarrow> 's) \<times> (size_t \<Rightarrow> 's \<Rightarrow> size_t \<times> 's)"

fun construct_all ::
  "nat \<Rightarrow> tchar \<Rightarrow> ('c, 's) ctor_args list \<Rightarrow> 's process \<Rightarrow> ('c, 's) generator list \<times> 's process" where
  "construct_all speedup T [] p = ([], p)"
| "construct_all speedup T ((cs, sd, rn) # rest) p =
     (let (g, p1) = RandomStringGeneratorBase speedup T cs sd rn p;
          (gs, p2) = construct_all speedup T rest p1
      in (g # gs, p2))"

section \<open>Generation\<close>

text \<open>
  The loop body \<^verbatim>\<open>out[i] = _charset[_rand(_charset.size())]\<close>: the strategy is called
  with the size, the charset is read at the index it returns, the symbol is assigned.
\<close>

definition get_body ::
  "('c::zero, 's) generator \<Rightarrow> c_int \<Rightarrow> 'c list \<Rightarrow> 's process \<Rightarrow> ('c list, 's) result" where
  "get_body g i out p =
     (let n = size_of (charset g);
          (r, e) = rand g n (env p);
          p1 = p\<lparr>env := e, trace := trace p @ [RandCall n]\<rparr>
      in case at (charset g) r of
           None \<Rightarrow> Inl (CharsetOutOfRange, p1)
         | Some c \<Rightarrow>
             (case store out (sint i) c of
                None \<Rightarrow> Inl (BufferOutOfRange, p1)
              | Some out' \<Rightarrow> Inr (out', p1\<lparr>trace := trace p1 @ [Write (sint i)]\<rparr>)))"

text \<open>
  \<^verbatim>\<open>for (int i = 0; i < outSize; i++)\<close>: in the comparison the usual arithmetic
  conversions turn the counter into a \<^verbatim>\<open>size_t\<close> (sign extension), and the increment
  wraps. The loop ends in at most \<open>2 ^ 32\<close> passes: a counter of \<open>- 1\<close> converts to the
  largest \<^verbatim>\<open>size_t\<close>, which is below no \<open>outSize\<close>.
\<close>

function get_loop ::
  "('c::zero, 's) generator \<Rightarrow> c_int \<Rightarrow> size_t \<Rightarrow> 'c list \<Rightarrow> 's process \<Rightarrow> ('c list, 's) result" where
  "get_loop g i outSize out p =
     (if (scast i :: size_t) < outSize then
        (case get_body g i out p of
           Inl f \<Rightarrow> Inl f
         | Inr (out', p') \<Rightarrow> get_loop g (i + 1) outSize out' p')
      else Inr (out, p))"
  by pat_completeness auto

termination
proof (relation "measure (\<lambda>(g, i, outSize, out, p). unat (- 1 - i))")
  show "wf (measure (\<lambda>(g, i, outSize, out, p). unat (- 1 - (i :: c_int))))"
    by simp
next
  fix g :: "('c::zero, 's) generator" and i :: c_int and outSize :: size_t
    and out :: "'c list" and p :: "'s process" and b x y
  assume "(scast i :: size_t) < outSize"
  then have "i \<noteq> - 1" by (auto simp: scast_n1)
  then have nz: "- 1 - i \<noteq> 0" by simp
  have eq: "- 1 - (i + 1) = - 1 - i - 1" by simp
  have "unat (- 1 - (i + 1)) < unat (- 1 - i)"
    unfolding eq using nz by (rule measure_unat)
  then show "((g, i + 1, outSize, x, y), (g, i, outSize, out, p))
      \<in> measure (\<lambda>(g, i, outSize, out, p). unat (- 1 - i))"
    by (simp only: in_measure prod.case)
qed

declare get_loop.simps [simp del]

text \<open>\<^verbatim>\<open>void get(TChar *out, size_t outSize)\<close> (lines 137 to 143).\<close>

definition get ::
  "('c::zero, 's) generator \<Rightarrow> 'c list \<Rightarrow> size_t \<Rightarrow> 's process \<Rightarrow> ('c list, 's) result" where
  "get g out outSize p = get_loop g 0 outSize out p"

text \<open>
  \<^verbatim>\<open>template<typename T> auto get(size_t outSize) -> T\<close> (lines 123 to 129):
  \<^verbatim>\<open>T result(outSize, {})\<close>, then \<^verbatim>\<open>get(result.data(), result.size())\<close>. The allocation
  is taken to succeed.
\<close>

definition get_T :: "('c::zero, 's) generator \<Rightarrow> size_t \<Rightarrow> 's process \<Rightarrow> ('c list, 's) result" where
  "get_T g outSize p =
     (let result = replicate (unat outSize) 0
      in get g result (of_nat (length result)) p)"


section \<open>Strategies used in the scenarios\<close>

text \<open>A random strategy that always returns index 0 and leaves its state alone.\<close>

definition always_zero :: "size_t \<Rightarrow> 's \<Rightarrow> size_t \<times> 's" where
  "always_zero n e = (0, e)"

text \<open>A random strategy that returns 0, 1, 0, 1, ...: its state counts the calls.\<close>

definition cycling :: "size_t \<Rightarrow> nat \<Rightarrow> size_t \<times> nat" where
  "cycling n e = (of_nat (e mod 2), Suc e)"

section \<open>The loop, unrolled\<close>

text \<open>
  \<open>fill g j k\<close> is \<open>k\<close> passes through the loop body with the counter starting at
  \<open>j\<close>; \<open>draws\<close> are the indices the strategy returns in \<open>k\<close> calls, \<open>env_after\<close>
  the state it leaves, and \<open>iterations n j k\<close> the events of the passes with counter
  \<open>j\<close> up to \<open>k - 1\<close>.
\<close>

fun fill ::
  "('c::zero, 's) generator \<Rightarrow> nat \<Rightarrow> nat \<Rightarrow> 'c list \<Rightarrow> 's process \<Rightarrow> ('c list, 's) result" where
  "fill g j 0 out p = Inr (out, p)"
| "fill g j (Suc k) out p =
     (case get_body g (of_nat j) out p of
        Inl f \<Rightarrow> Inl f
      | Inr (out', p') \<Rightarrow> fill g (Suc j) k out' p')"

fun draws :: "('c, 's) generator \<Rightarrow> nat \<Rightarrow> 's \<Rightarrow> size_t list" where
  "draws g 0 e = []"
| "draws g (Suc k) e =
     fst (rand g (size_of (charset g)) e) # draws g k (snd (rand g (size_of (charset g)) e))"

fun env_after :: "('c, 's) generator \<Rightarrow> nat \<Rightarrow> 's \<Rightarrow> 's" where
  "env_after g 0 e = e"
| "env_after g (Suc k) e = env_after g k (snd (rand g (size_of (charset g)) e))"

definition iterations :: "size_t \<Rightarrow> nat \<Rightarrow> nat \<Rightarrow> event list" where
  "iterations n j k = concat (map (\<lambda>m. [RandCall n, Write (int m)]) [j..<k])"

text \<open>The process state a call ends in, returned or at the fault.\<close>

definition final_process :: "('a, 's) result \<Rightarrow> 's process" where
  "final_process r = (case r of Inl (f, p) \<Rightarrow> p | Inr (x, p) \<Rightarrow> p)"

text \<open>The arguments of the calls of the random strategy in a trace, in order.\<close>

definition rand_args :: "event list \<Rightarrow> size_t list" where
  "rand_args tr = [n. RandCall n \<leftarrow> tr]"

section \<open>Generators used in the scenarios\<close>


text \<open>Charset \<^verbatim>\<open>"a"\<close> with the strategy that always returns 0.\<close>

definition a_gen :: "(char8, unit) generator" where
  "a_gen = \<lparr>charset = [97], seed = id, rand = always_zero\<rparr>"

section \<open>Which overload a construction runs\<close>

text \<open>
  The argument of a construction \<^verbatim>\<open>RandomStringGenerator(arg)\<close> is one of: an lvalue
  of type \<^verbatim>\<open>TChar const [size]\<close> (a named array of const elements, as at lines 185
  and 201 of \<^verbatim>\<open>main\<close>, or a string literal), given by its elements; a braced list
  of symbols; a pointer to symbols, given by the elements from the pointer to the end of
  the object; a container with random access iterators; a \<^verbatim>\<open>std::basic_string\<close>.
\<close>

datatype 'c charset_argument =
    ConstArray "'c list"
  | BracedList "'c list"
  | CString "'c list"
  | Container "'c list"
  | BasicString "'c list"

text \<open>
  Overload resolution. For the array lvalue both the array template (lines 70 to 79)
  and the non-template overload for \<^verbatim>\<open>TChar const*\<close> (lines 88 to 96) are viable with
  an exact match, the array-to-pointer conversion not counting against the second; the
  non-template overload is preferred, and it reads the array through a pointer to its
  first element. A braced list binds to the array template only.
\<close>

definition construct_from ::
  "nat \<Rightarrow> tchar \<Rightarrow> 'c::zero charset_argument \<Rightarrow> ('s \<Rightarrow> 's) \<Rightarrow> (size_t \<Rightarrow> 's \<Rightarrow> size_t \<times> 's)
    \<Rightarrow> 's process \<Rightarrow> (('c, 's) generator, 's) result" where
  "construct_from speedup T arg sd rn p =
     (case arg of
        ConstArray a \<Rightarrow> RandomStringGeneratorBase_cstr speedup T a sd rn p
      | BracedList a \<Rightarrow> Inr (RandomStringGeneratorBase_array speedup T a sd rn p)
      | CString block \<Rightarrow> RandomStringGeneratorBase_cstr speedup T block sd rn p
      | Container c \<Rightarrow> Inr (RandomStringGeneratorBase_container speedup T c sd rn p)
      | BasicString s \<Rightarrow> Inr (RandomStringGeneratorBase speedup T s sd rn p))"

text \<open>The charset of the generator a construction gives, or its fault.\<close>

definition charset_of :: "(('c, 's) generator, 's) result \<Rightarrow> ub + 'c list" where
  "charset_of r = map_sum fst (\<lambda>x. charset (fst x)) r"

text \<open>
  The 36 symbols of the array at lines 201 to 204 and of the vector at lines 226 to 229
  of \<^verbatim>\<open>main\<close>.
\<close>

definition main_charset :: "char8 list" where
  "main_charset = map of_char ''0123456789abcdefghijklmnopqrstuvwxyz''"

section \<open>The counter and the loop\<close>

lemma counter_sint: "j < 2 ^ 31 \<Longrightarrow> sint (of_nat j :: c_int) = int j"
  by (simp add: signed_of_nat signed_take_bit_int_eq_self)

lemma counter_unat_scast:
  assumes "j < 2 ^ 31"
  shows "unat (scast (of_nat j :: c_int) :: size_t) = j"
proof -
  have "(scast (of_nat j :: c_int) :: size_t) = of_int (sint (of_nat j :: c_int))"
    by (rule scast_eq)
  also have "\<dots> = of_nat j" using assms by (simp add: counter_sint)
  finally have "(scast (of_nat j :: c_int) :: size_t) = of_nat j" .
  moreover have "unat (of_nat j :: size_t) = j"
    using assms by (simp add: unat_of_nat)
  ultimately show ?thesis by (simp only:)
qed

lemma counter_less:
  "j < 2 ^ 31 \<Longrightarrow> ((scast (of_nat j :: c_int) :: size_t) < L) = (j < unat L)"
  by (simp add: word_less_nat_alt counter_unat_scast)

lemma counter_wrapped_sint: "N = 2 ^ 31 \<Longrightarrow> sint (of_nat N :: c_int) = - (2 ^ 31)"
  by simp

lemma counter_wrapped_less:
  "N = 2 ^ 31 \<Longrightarrow> ((scast (of_nat N :: c_int) :: size_t) < L) = (2 ^ 64 - 2 ^ 31 < unat L)"
  by (simp add: word_less_nat_alt)

lemma get_loop_exit: "\<not> (scast i :: size_t) < L \<Longrightarrow> get_loop g i L out p = Inr (out, p)"
  by (subst get_loop.simps) simp

lemma get_loop_enter:
  "(scast i :: size_t) < L \<Longrightarrow>
   get_loop g i L out p =
     (case get_body g i out p of
        Inl f \<Rightarrow> Inl f
      | Inr (out', p') \<Rightarrow> get_loop g (i + 1) L out' p')"
  by (subst get_loop.simps) simp

lemma get_body_eq:
  "get_body g i out p =
     (case at (charset g) (fst (rand g (size_of (charset g)) (env p))) of
        None \<Rightarrow>
          Inl (CharsetOutOfRange,
               p\<lparr>env := snd (rand g (size_of (charset g)) (env p)),
                 trace := trace p @ [RandCall (size_of (charset g))]\<rparr>)
      | Some c \<Rightarrow>
          if 0 \<le> sint i \<and> sint i < int (length out) then
            Inr (out[nat (sint i) := c],
                 p\<lparr>env := snd (rand g (size_of (charset g)) (env p)),
                   trace := trace p @ [RandCall (size_of (charset g)), Write (sint i)]\<rparr>)
          else
            Inl (BufferOutOfRange,
                 p\<lparr>env := snd (rand g (size_of (charset g)) (env p)),
                   trace := trace p @ [RandCall (size_of (charset g))]\<rparr>))"
  by (cases "at (charset g) (fst (rand g (size_of (charset g)) (env p)))")
     (simp_all add: get_body_def store_def Let_def split_beta)

lemma loop_unroll:
  "j + k \<le> 2 ^ 31 \<Longrightarrow> j + k \<le> unat L \<Longrightarrow>
   get_loop g (of_nat j) L out p =
     (case fill g j k out p of
        Inl f \<Rightarrow> Inl f
      | Inr (out', p') \<Rightarrow> get_loop g (of_nat (j + k)) L out' p')"
proof (induction k arbitrary: j out p)
  case 0
  then show ?case by simp
next
  case (Suc k)
  then have j: "j < 2 ^ 31" "j < unat L" by simp_all
  have cond: "(scast (of_nat j :: c_int) :: size_t) < L"
    using j by (simp add: counter_less)
  have next_counter: "(of_nat j :: c_int) + 1 = of_nat (Suc j)" by simp
  show ?case
  proof (cases "get_body g (of_nat j) out p")
    case (Inl f)
    then show ?thesis using cond by (subst get_loop.simps) simp
  next
    case (Inr b)
    obtain out' p' where b: "b = (out', p')" by (cases b)
    have "get_loop g (of_nat j) L out p = get_loop g (of_nat (Suc j)) L out' p'"
      using cond Inr b by (subst get_loop.simps) (simp only: next_counter if_True sum.case prod.case)
    also have "\<dots> = (case fill g (Suc j) k out' p' of
        Inl f \<Rightarrow> Inl f
      | Inr (out'', p'') \<Rightarrow> get_loop g (of_nat (Suc j + k)) L out'' p'')"
      using Suc.prems by (intro Suc.IH) simp_all
    finally have "get_loop g (of_nat j) L out p = (case fill g (Suc j) k out' p' of
        Inl f \<Rightarrow> Inl f
      | Inr (out'', p'') \<Rightarrow> get_loop g (of_nat (Suc j + k)) L out'' p'')" .
    moreover have "Suc j + k = j + Suc k" by simp
    moreover have "fill g j (Suc k) out p = fill g (Suc j) k out' p'"
      using Inr b by simp
    ultimately show ?thesis by (simp only:)
  qed
qed

lemma loop_stop:
  assumes "N = min (unat L) (2 ^ 31)" "unat L \<le> 2 ^ 64 - 2 ^ 31"
  shows "get_loop g (of_nat N) L out p = Inr (out, p)"
proof (cases "N < 2 ^ 31")
  case True
  from True assms(1) have "\<not> N < unat L" by simp
  then have "\<not> (scast (of_nat N :: c_int) :: size_t) < L"
    by (simp only: counter_less [OF True] not_False_eq_True)
  then show ?thesis by (rule get_loop_exit)
next
  case False
  then have N: "N = 2 ^ 31" using assms(1) by simp
  have "\<not> (scast (of_nat N :: c_int) :: size_t) < L"
    using assms(2) by (simp add: counter_wrapped_less [OF N])
  then show ?thesis by (rule get_loop_exit)
qed

lemma loop_unroll0:
  assumes "k \<le> 2 ^ 31" "k \<le> unat L"
  shows "get g out L p =
     (case fill g 0 k out p of
        Inl f \<Rightarrow> Inl f
      | Inr (out', p') \<Rightarrow> get_loop g (of_nat k) L out' p')"
proof -
  have "get_loop g (of_nat 0) L out p =
     (case fill g 0 k out p of
        Inl f \<Rightarrow> Inl f
      | Inr (out', p') \<Rightarrow> get_loop g (of_nat (0 + k)) L out' p')"
    using assms by (intro loop_unroll) simp_all
  then have "get_loop g (of_nat 0) L out p =
     (case fill g 0 k out p of
        Inl f \<Rightarrow> Inl f
      | Inr (out', p') \<Rightarrow> get_loop g (of_nat k) L out' p')"
    unfolding add_0 .
  then show ?thesis by (simp add: get_def)
qed

lemma get_unrolled:
  assumes "unat L \<le> 2 ^ 64 - 2 ^ 31" "N = min (unat L) (2 ^ 31)"
  shows "get g out L p = fill g 0 N out p"
proof -
  have N: "N \<le> 2 ^ 31" "N \<le> unat L"
    using assms by simp_all
  have stop: "get_loop g (of_nat N) L out' p' = Inr (out', p')" for out' p'
    using assms(2) assms(1) by (rule loop_stop)
  show ?thesis
    by (cases "fill g 0 N out p")
       (auto simp only: loop_unroll0 [OF N(1) N(2)] stop sum.case prod.case)
qed

lemma body_wrapped:
  assumes "N = 2 ^ 31"
  shows "get_body g (of_nat N) out p =
          (case at (charset g) (fst (rand g (size_of (charset g)) (env p))) of
             None \<Rightarrow>
               Inl (CharsetOutOfRange,
                    p\<lparr>env := snd (rand g (size_of (charset g)) (env p)),
                      trace := trace p @ [RandCall (size_of (charset g))]\<rparr>)
           | Some c \<Rightarrow>
               Inl (BufferOutOfRange,
                    p\<lparr>env := snd (rand g (size_of (charset g)) (env p)),
                      trace := trace p @ [RandCall (size_of (charset g))]\<rparr>))"
proof -
  have neg: "\<not> (0 \<le> sint (of_nat N :: c_int))"
    by (simp only: counter_wrapped_sint [OF assms]) simp
  show ?thesis by (simp only: get_body_eq neg simp_thms if_False)
qed

lemma get_wrapped:
  assumes "2 ^ 64 - 2 ^ 31 < unat L" "N = 2 ^ 31"
  shows "get g out L p =
     (case fill g 0 N out p of
        Inl f \<Rightarrow> Inl f
      | Inr (out', p') \<Rightarrow>
          (case get_body g (of_nat N) out' p' of
             Inl f \<Rightarrow> Inl f
           | Inr (out'', p'') \<Rightarrow> get_loop g (of_nat N + 1) L out'' p''))"
proof -
  have N: "N \<le> 2 ^ 31" "N \<le> unat L" using assms by simp_all
  have cond: "(scast (of_nat N :: c_int) :: size_t) < L"
    using assms(1) by (simp only: counter_wrapped_less [OF assms(2)])
  show ?thesis
    by (simp only: loop_unroll0 [OF N] get_loop_enter [OF cond])
qed


section \<open>The unrolled loop\<close>

lemma get_body_nat:
  assumes "j < 2 ^ 31"
  shows "get_body g (of_nat j) out p =
     (case at (charset g) (fst (rand g (size_of (charset g)) (env p))) of
        None \<Rightarrow>
          Inl (CharsetOutOfRange,
               p\<lparr>env := snd (rand g (size_of (charset g)) (env p)),
                 trace := trace p @ [RandCall (size_of (charset g))]\<rparr>)
      | Some c \<Rightarrow>
          if j < length out then
            Inr (out[j := c],
                 p\<lparr>env := snd (rand g (size_of (charset g)) (env p)),
                   trace := trace p @ [RandCall (size_of (charset g)), Write (int j)]\<rparr>)
          else
            Inl (BufferOutOfRange,
                 p\<lparr>env := snd (rand g (size_of (charset g)) (env p)),
                   trace := trace p @ [RandCall (size_of (charset g))]\<rparr>))"
  by (simp add: get_body_eq counter_sint [OF assms] split: option.splits)

lemma iterations_step:
  "iterations n j (Suc (j + k)) = RandCall n # Write (int j) # iterations n (Suc j) (Suc (j + k))"
  by (simp add: iterations_def upt_conv_Cons)

lemma iterations_empty: "iterations n j j = []"
  by (simp add: iterations_def)

lemma fill_exact:
  "\<forall>r \<in> set (draws g k (env p)). unat r \<le> length (charset g) \<Longrightarrow>
   j + k \<le> length out \<Longrightarrow> j + k \<le> 2 ^ 31 \<Longrightarrow>
   fill g j k out p =
     Inr (take j out @ map (\<lambda>r. the (at (charset g) r)) (draws g k (env p)) @ drop (j + k) out,
          p\<lparr>env := env_after g k (env p),
            trace := trace p @ iterations (size_of (charset g)) j (j + k)\<rparr>)"
proof (induction k arbitrary: j out p)
  case 0
  then show ?case by (simp add: iterations_empty)
next
  case (Suc k)
  let ?n = "size_of (charset g)"
  let ?r = "fst (rand g ?n (env p))"
  let ?e = "snd (rand g ?n (env p))"
  let ?p' = "p\<lparr>env := ?e, trace := trace p @ [RandCall ?n, Write (int j)]\<rparr>"
  from Suc.prems have j: "j < 2 ^ 31" "j < length out" by simp_all
  from Suc.prems(1) have "unat ?r \<le> length (charset g)" by simp
  then obtain c where at: "at (charset g) ?r = Some c"
    by (cases "unat ?r < length (charset g)") (auto simp: at_def)
  have body: "get_body g (of_nat j) out p = Inr (out[j := c], ?p')"
    using j(2) by (simp add: get_body_nat [OF j(1)] at)
  have rest: "fill g (Suc j) k (out[j := c]) ?p' =
     Inr (take (Suc j) (out[j := c]) @ map (\<lambda>r. the (at (charset g) r)) (draws g k (env ?p'))
            @ drop (Suc j + k) (out[j := c]),
          ?p'\<lparr>env := env_after g k (env ?p'),
            trace := trace ?p' @ iterations ?n (Suc j) (Suc j + k)\<rparr>)"
  proof (rule Suc.IH)
    show "\<forall>r \<in> set (draws g k (env ?p')). unat r \<le> length (charset g)"
      using Suc.prems(1) by simp
    show "Suc j + k \<le> length (out[j := c])" using Suc.prems(2) by simp
    show "Suc j + k \<le> 2 ^ 31" using Suc.prems(3) by simp
  qed
  have t: "take (Suc j) (out[j := c]) = take j out @ [c]"
    using j(2) by (simp add: take_Suc_conv_app_nth)
  have d: "drop (Suc j + k) (out[j := c]) = drop (j + Suc k) out"
    by simp
  have "fill g j (Suc k) out p = fill g (Suc j) k (out[j := c]) ?p'"
    using body by simp
  then show ?case
    unfolding rest t d by (simp add: iterations_step at)
qed



section \<open>Construction: the charset each overload stores, and the once-flag\<close>

lemma auto_seeding_is_the_default: "SPEEDUP_GENERATOR_BY_DEDICATED_CALL_OF_SEED_RANDOM = 0"
  by (simp add: SPEEDUP_GENERATOR_BY_DEDICATED_CALL_OF_SEED_RANDOM_def)

lemma ctor_generator:
  "fst (RandomStringGeneratorBase m T cs sd rn p) = \<lparr>charset = cs, seed = sd, rand = rn\<rparr>"
  by (simp add: RandomStringGeneratorBase_def Let_def)

lemma ctor_charset: "charset (fst (RandomStringGeneratorBase m T cs sd rn p)) = cs"
  by (simp add: ctor_generator)

lemma cstr_terminated: "0 \<notin> set s \<Longrightarrow> basic_string_cstr (s @ 0 # rest) = Some s"
  by (induction s) (auto simp: basic_string_cstr_def)

lemma ctor_flag_set: "once_flag p T \<Longrightarrow> snd (RandomStringGeneratorBase m T cs sd rn p) = p"
  by (simp add: RandomStringGeneratorBase_def Let_def)

lemma ctor_disabled: "m \<noteq> 0 \<Longrightarrow> snd (RandomStringGeneratorBase m T cs sd rn p) = p"
  by (simp add: RandomStringGeneratorBase_def Let_def)

lemma ctor_first:
  "\<not> once_flag p T \<Longrightarrow>
   snd (RandomStringGeneratorBase 0 T cs sd rn p) =
     p\<lparr>once_flag := (once_flag p)(T := True), env := sd (env p),
       trace := trace p @ [SeedCall]\<rparr>"
  by (simp add: RandomStringGeneratorBase_def Let_def Seed_def)

lemma construct_all_flag_set: "once_flag p T \<Longrightarrow> snd (construct_all m T reqs p) = p"
  by (induction reqs arbitrary: p) (auto simp: ctor_flag_set split_beta Let_def)

lemma construct_all_disabled: "m \<noteq> 0 \<Longrightarrow> snd (construct_all m T reqs p) = p"
  by (induction reqs arbitrary: p) (auto simp: ctor_disabled split_beta Let_def)

lemma construct_all_length: "length (fst (construct_all m T reqs p)) = length reqs"
  by (induction reqs arbitrary: p) (auto simp: split_beta Let_def)

lemma initial_process_sel:
  "once_flag (initial_process e) T = False" "env (initial_process e) = e"
  "trace (initial_process e) = []"
  by (simp_all add: initial_process_def)

lemma ctor_other_flag:
  "T' \<noteq> T \<Longrightarrow> once_flag (snd (RandomStringGeneratorBase m T' cs sd rn p)) T = once_flag p T"
  by (simp add: RandomStringGeneratorBase_def Let_def Seed_def)

text \<open>
  Within one instantiation the guard works: a run of constructions started with the flag
  clear calls the seed strategy of the first construction once, and with the macro set
  no construction calls it.
\<close>

lemma auto_seed_once_within_instantiation:
  assumes "\<not> once_flag p T"
  shows "snd (construct_all 0 T ((cs, sd, rn) # rest) p)
           = snd (RandomStringGeneratorBase 0 T cs sd rn p)
       \<and> trace (snd (construct_all 0 T ((cs, sd, rn) # rest) p)) = trace p @ [SeedCall]
       \<and> env (snd (construct_all 0 T ((cs, sd, rn) # rest) p)) = sd (env p)
       \<and> length (fst (construct_all 0 T ((cs, sd, rn) # rest) p)) = Suc (length rest)
       \<and> (m \<noteq> 0 \<longrightarrow> snd (construct_all m T ((cs, sd, rn) # rest) p) = p)"
proof -
  let ?p1 = "snd (RandomStringGeneratorBase 0 T cs sd rn p)"
  have p1: "?p1 = p\<lparr>once_flag := (once_flag p)(T := True), env := sd (env p),
                     trace := trace p @ [SeedCall]\<rparr>"
    using assms by (rule ctor_first)
  then have "once_flag ?p1 T" by simp
  then have rest: "snd (construct_all 0 T rest ?p1) = ?p1" by (rule construct_all_flag_set)
  have all: "snd (construct_all 0 T ((cs, sd, rn) # rest) p) = ?p1"
    using rest by (simp add: split_beta Let_def)
  show ?thesis
    using all p1 construct_all_length [of 0 T "(cs, sd, rn) # rest" p]
    by (simp add: construct_all_disabled del: construct_all.simps)
qed

text \<open>What the bodies of the overloads store, whichever call runs them.\<close>

lemma overloads_agree:
  assumes "0 \<notin> set s"
  shows "fst (RandomStringGeneratorBase_container m T s sd rn p)
           = \<lparr>charset = s, seed = sd, rand = rn\<rparr>
       \<and> map_sum fst fst (RandomStringGeneratorBase_cstr m T (s @ 0 # rest) sd rn p)
           = Inr \<lparr>charset = s, seed = sd, rand = rn\<rparr>
       \<and> fst (RandomStringGeneratorBase_array m T s sd rn p)
           = \<lparr>charset = s, seed = sd, rand = rn\<rparr>
       \<and> fst (RandomStringGeneratorBase_array m T (s @ [0]) sd rn p)
           = \<lparr>charset = s @ [0], seed = sd, rand = rn\<rparr>"
  using assms
  by (simp add: RandomStringGeneratorBase_container_def RandomStringGeneratorBase_cstr_def
      RandomStringGeneratorBase_array_def ctor_generator basic_string_range_def cstr_terminated)

lemma array_overload_keeps_every_element:
  "charset (fst (RandomStringGeneratorBase_array m T charsetArray sd rn p)) = charsetArray
   \<and> length (charset (fst (RandomStringGeneratorBase_array m T charsetArray sd rn p)))
       = length charsetArray
   \<and> charset (fst (RandomStringGeneratorBase_array m T (string_literal s) sd rn p))
       = map of_char s @ [0]
   \<and> length (charset (fst (RandomStringGeneratorBase_array m T (string_literal s) sd rn p)))
       = length s + 1
   \<and> 0 \<in> set (charset (fst (RandomStringGeneratorBase_array m T (string_literal s) sd rn p)))"
  by (simp add: RandomStringGeneratorBase_array_def ctor_charset basic_string_range_def
      string_literal_def)

section \<open>What a call of \<^verbatim>\<open>get\<close> returns\<close>

lemma draws_length: "length (draws g k e) = k"
  by (induction k arbitrary: e) simp_all

lemma draws_all:
  "\<forall>e. P (fst (rand g (size_of (charset g)) e)) \<Longrightarrow> \<forall>r \<in> set (draws g k e). P r"
  by (induction k arbitrary: e) simp_all

lemma draws_const:
  "\<forall>e. fst (rand g (size_of (charset g)) e) = r \<Longrightarrow> draws g k e = replicate k r"
  by (induction k arbitrary: e) simp_all

lemma get_exact:
  assumes ok: "\<forall>e. unat (fst (rand g (size_of (charset g)) e)) \<le> length (charset g)"
    and cap: "N \<le> length out"
    and L: "unat L \<le> 2 ^ 64 - 2 ^ 31" "N = min (unat L) (2 ^ 31)"
  shows "get g out L p =
     Inr (map (\<lambda>r. the (at (charset g) r)) (draws g N (env p)) @ drop N out,
          p\<lparr>env := env_after g N (env p),
            trace := trace p @ iterations (size_of (charset g)) 0 N\<rparr>)"
proof -
  have d: "\<forall>r \<in> set (draws g N (env p)). unat r \<le> length (charset g)"
    using ok by (rule draws_all)
  have "0 + N \<le> length out" "0 + N \<le> 2 ^ 31" using cap L(2) by simp_all
  from fill_exact [OF d this] show ?thesis
    by (simp add: get_unrolled [OF L])
qed

lemma get_wrapped_exact:
  assumes ok: "\<forall>e. unat (fst (rand g (size_of (charset g)) e)) \<le> length (charset g)"
    and cap: "N \<le> length out"
    and L: "2 ^ 64 - 2 ^ 31 < unat L" "N = 2 ^ 31"
  shows "map_sum fst fst (get g out L p) = Inl BufferOutOfRange
       \<and> trace (final_process (get g out L p)) =
           trace p @ iterations (size_of (charset g)) 0 N @ [RandCall (size_of (charset g))]"
proof -
  let ?n = "size_of (charset g)"
  let ?p' = "p\<lparr>env := env_after g N (env p), trace := trace p @ iterations ?n 0 N\<rparr>"
  have d: "\<forall>r \<in> set (draws g N (env p)). unat r \<le> length (charset g)"
    using ok by (rule draws_all)
  have "0 + N \<le> length out" "0 + N \<le> 2 ^ 31" using cap L(2) by simp_all
  from fill_exact [OF d this] obtain out' where
    f: "fill g 0 N out p = Inr (out', ?p')" by simp
  let ?e = "env_after g N (env p)"
  from ok have "unat (fst (rand g ?n ?e)) \<le> length (charset g)" by blast
  then obtain c where at: "at (charset g) (fst (rand g ?n ?e)) = Some c"
    by (cases "unat (fst (rand g ?n ?e)) < length (charset g)") (auto simp: at_def)
  show ?thesis
    by (simp add: get_wrapped [OF L] f body_wrapped [OF L(2)] at final_process_def)
qed

lemma a_gen_get:
  assumes "N \<le> length out" "unat L \<le> 2 ^ 64 - 2 ^ 31" "N = min (unat L) (2 ^ 31)"
  shows "get a_gen out L p =
     Inr (replicate N 97 @ drop N out, p\<lparr>trace := trace p @ iterations 1 0 N\<rparr>)"
proof -
  have ok: "\<forall>e. unat (fst (rand a_gen (size_of (charset a_gen)) e)) \<le> length (charset a_gen)"
    by (simp add: a_gen_def always_zero_def)
  have d: "draws a_gen N (env p) = replicate N 0"
    by (rule draws_const) (simp add: a_gen_def always_zero_def)
  have at: "the (at (charset a_gen) 0) = 97"
    by (simp add: a_gen_def at_def)
  have n: "size_of (charset a_gen) = 1"
    by (simp add: a_gen_def size_of_def)
  show ?thesis
    unfolding get_exact [OF ok assms] d n
    by (simp add: at)
qed

lemma get_T_fresh: "get_T g L p = get g (replicate (unat L) 0) L p"
  by (simp add: get_T_def Let_def)



text \<open>
  Within the range of the counter (\<open>outSize \<le> 2 ^ 31\<close>) a strategy that returns indices
  below the size of the charset gives exactly \<open>outSize\<close> symbols of the charset, and a
  strategy that always returns 0 gives the first symbol \<open>outSize\<close> times.
\<close>

lemma get_in_range:
  assumes ok: "\<forall>e. unat (fst (rand g (size_of (charset g)) e)) < length (charset g)"
    and cap: "unat L \<le> length out" and L: "unat L \<le> 2 ^ 31"
  shows "\<exists>ws p'. get g out L p = Inr (ws @ drop (unat L) out, p')
           \<and> length ws = unat L \<and> set ws \<subseteq> set (charset g)"
proof -
  let ?ws = "map (\<lambda>r. the (at (charset g) r)) (draws g (unat L) (env p))"
  have ok': "\<forall>e. unat (fst (rand g (size_of (charset g)) e)) \<le> length (charset g)"
    using ok by (auto intro: less_imp_le)
  have L': "unat L \<le> 2 ^ 64 - 2 ^ 31" "unat L = min (unat L) (2 ^ 31)" using L by simp_all
  note e = get_exact [OF ok' cap L', of p]
  have "\<forall>r \<in> set (draws g (unat L) (env p)). unat r < length (charset g)"
    using ok by (rule draws_all)
  then have "set ?ws \<subseteq> set (charset g)" by (auto simp: at_def)
  moreover have "length ?ws = unat L" by (simp add: draws_length)
  ultimately show ?thesis using e by blast
qed

lemma get_T_in_range:
  assumes ok: "\<forall>e. unat (fst (rand g (size_of (charset g)) e)) < length (charset g)"
    and L: "unat L \<le> 2 ^ 31"
  shows "\<exists>ws p'. get_T g L p = Inr (ws, p') \<and> length ws = unat L \<and> set ws \<subseteq> set (charset g)"
proof -
  have "\<exists>ws p'. get g (replicate (unat L) 0) L p
            = Inr (ws @ drop (unat L) (replicate (unat L) 0), p')
           \<and> length ws = unat L \<and> set ws \<subseteq> set (charset g)"
    by (rule get_in_range [OF ok _ L]) simp
  then show ?thesis by (auto simp: get_T_fresh)
qed

lemma get_always_first:
  assumes ne: "charset g \<noteq> []"
    and zero: "\<forall>e. fst (rand g (size_of (charset g)) e) = 0"
    and cap: "unat L \<le> length out" and L: "unat L \<le> 2 ^ 31"
  shows "map_sum fst fst (get g out L p)
           = Inr (replicate (unat L) (hd (charset g)) @ drop (unat L) out)"
proof -
  have ok: "\<forall>e. unat (fst (rand g (size_of (charset g)) e)) \<le> length (charset g)"
    using zero by simp
  have L': "unat L \<le> 2 ^ 64 - 2 ^ 31" "unat L = min (unat L) (2 ^ 31)" using L by simp_all
  have d: "draws g (unat L) (env p) = replicate (unat L) 0"
    using zero by (rule draws_const)
  have at: "the (at (charset g) 0) = hd (charset g)"
    using ne by (simp add: at_def hd_conv_nth)
  show ?thesis
    unfolding get_exact [OF ok cap L'] d by (simp add: at)
qed

lemma get_T_always_first:
  assumes "charset g \<noteq> []"
    and "\<forall>e. fst (rand g (size_of (charset g)) e) = 0"
    and "unat L \<le> 2 ^ 31"
  shows "map_sum fst fst (get_T g L p) = Inr (replicate (unat L) (hd (charset g)))"
proof -
  have "map_sum fst fst (get g (replicate (unat L) 0) L p)
           = Inr (replicate (unat L) (hd (charset g)) @ drop (unat L) (replicate (unat L) 0))"
    by (rule get_always_first [OF assms(1) assms(2) _ assms(3)]) simp
  then show ?thesis by (simp add: get_T_fresh)
qed

section \<open>Invariants of the loop, by computation induction\<close>

lemma get_body_trace:
  "get_body g i out p = Inl (u, p1) \<Longrightarrow>
     trace p1 = trace p @ [RandCall (size_of (charset g))]"
  "get_body g i out p = Inr (out', p') \<Longrightarrow>
     trace p' = trace p @ [RandCall (size_of (charset g)), Write (sint i)]"
  by (auto simp: get_body_eq split: option.splits if_splits)

lemma rand_args_simps:
  "rand_args [] = []"
  "rand_args (RandCall n # tr) = n # rand_args tr"
  "rand_args (Write k # tr) = rand_args tr"
  "rand_args (SeedCall # tr) = rand_args tr"
  "rand_args (tr @ tr') = rand_args tr @ rand_args tr'"
  by (simp_all add: rand_args_def)

lemma get_loop_rand_args:
  "\<exists>tr. trace (final_process (get_loop g i L out p)) = trace p @ tr
      \<and> set (rand_args tr) \<subseteq> {size_of (charset g)}"
proof (induction g i L out p rule: get_loop.induct)
  case (1 g i L out p)
  show ?case
  proof (cases "(scast i :: size_t) < L")
    case False
    then have "get_loop g i L out p = Inr (out, p)" by (rule get_loop_exit)
    then show ?thesis by (simp add: final_process_def rand_args_simps)
  next
    case True
    note enter = get_loop_enter [OF True, of g out p]
    show ?thesis
    proof (cases "get_body g i out p")
      case (Inl f)
      obtain u p1 where f: "f = (u, p1)" by (cases f)
      have "trace p1 = trace p @ [RandCall (size_of (charset g))]"
        using Inl f by (intro get_body_trace(1)) simp
      then show ?thesis
        using Inl f by (simp add: enter final_process_def rand_args_simps)
    next
      case (Inr b)
      obtain out' p' where b: "b = (out', p')" by (cases b)
      have tr: "trace p' = trace p @ [RandCall (size_of (charset g)), Write (sint i)]"
        using Inr b by (intro get_body_trace(2)) simp
      from "1.IH" [OF True Inr b [symmetric]] obtain tr' where
        ih: "trace (final_process (get_loop g (i + 1) L out' p')) = trace p' @ tr'"
          "set (rand_args tr') \<subseteq> {size_of (charset g)}"
        by blast
      have "get_loop g i L out p = get_loop g (i + 1) L out' p'"
        using Inr b by (simp add: enter)
      then have "trace (final_process (get_loop g i L out p)) =
          trace p @ ([RandCall (size_of (charset g)), Write (sint i)] @ tr')"
        using ih(1) tr by simp
      moreover have "set (rand_args ([RandCall (size_of (charset g)), Write (sint i)] @ tr'))
          \<subseteq> {size_of (charset g)}"
        using ih(2) by (simp add: rand_args_simps)
      ultimately show ?thesis by blast
    qed
  qed
qed

lemma size_of_exact:
  assumes "cs \<noteq> []" "length cs < 2 ^ 64"
  shows "unat (size_of cs) = length cs \<and> 0 < size_of cs"
proof -
  have u: "unat (size_of cs) = length cs"
    using assms(2) by (simp add: size_of_def unat_of_nat)
  then have "unat (0 :: size_t) < unat (size_of cs)" using assms(1) by simp
  then have "0 < size_of cs" by (simp only: word_less_nat_alt)
  with u show ?thesis by simp
qed

lemma get_body_sim:
  assumes sim: "\<forall>e e'. R e e' \<longrightarrow>
      fst (rand g (size_of (charset g)) e) = fst (rand g (size_of (charset g)) e')
      \<and> R (snd (rand g (size_of (charset g)) e)) (snd (rand g (size_of (charset g)) e'))"
    and start: "R (env p) (env p')"
  shows "(\<exists>u p1 p1'. get_body g i out p = Inl (u, p1) \<and> get_body g i out p' = Inl (u, p1')
            \<and> R (env p1) (env p1'))
       \<or> (\<exists>out' p1 p1'. get_body g i out p = Inr (out', p1) \<and> get_body g i out p' = Inr (out', p1')
            \<and> R (env p1) (env p1'))"
proof -
  from sim start have
    r: "fst (rand g (size_of (charset g)) (env p')) = fst (rand g (size_of (charset g)) (env p))"
    and s: "R (snd (rand g (size_of (charset g)) (env p))) (snd (rand g (size_of (charset g)) (env p')))"
    by simp_all
  show ?thesis
    by (cases "at (charset g) (fst (rand g (size_of (charset g)) (env p)))";
        cases "0 \<le> sint i \<and> sint i < int (length out)")
       (simp_all add: get_body_eq r s)
qed

lemma get_loop_sim:
  assumes "\<forall>e e'. R e e' \<longrightarrow>
      fst (rand g (size_of (charset g)) e) = fst (rand g (size_of (charset g)) e')
      \<and> R (snd (rand g (size_of (charset g)) e)) (snd (rand g (size_of (charset g)) e'))"
    and "R (env p) (env p')"
  shows "map_sum fst fst (get_loop g i L out p') = map_sum fst fst (get_loop g i L out p)
       \<and> R (env (final_process (get_loop g i L out p))) (env (final_process (get_loop g i L out p')))"
  using assms
proof (induction g i L out p arbitrary: p' rule: get_loop.induct)
  case (1 g i L out p)
  show ?case
  proof (cases "(scast i :: size_t) < L")
    case False
    then show ?thesis using "1.prems"(2) by (simp add: get_loop_exit final_process_def)
  next
    case True
    from get_body_sim [OF "1.prems", of i out]
    show ?thesis
    proof (elim disjE exE conjE)
      fix u p1 p1'
      assume "get_body g i out p = Inl (u, p1)" "get_body g i out p' = Inl (u, p1')"
        "R (env p1) (env p1')"
      then show ?thesis by (simp add: get_loop_enter [OF True] final_process_def)
    next
      fix out' p1 p1'
      assume b: "get_body g i out p = Inr (out', p1)" "get_body g i out p' = Inr (out', p1')"
        and r: "R (env p1) (env p1')"
      have "map_sum fst fst (get_loop g (i + 1) L out' p1')
              = map_sum fst fst (get_loop g (i + 1) L out' p1)
          \<and> R (env (final_process (get_loop g (i + 1) L out' p1)))
               (env (final_process (get_loop g (i + 1) L out' p1')))"
        using True b(1) refl "1.prems"(1) r by (rule "1.IH")
      then show ?thesis using b by (simp add: get_loop_enter [OF True])
    qed
  qed
qed

lemma same_strategy_state_same_output:
  assumes "env p = env p'"
  shows "map_sum fst fst (get g out L p') = map_sum fst fst (get g out L p)
       \<and> env (final_process (get g out L p)) = env (final_process (get g out L p'))"
  unfolding get_def by (rule get_loop_sim [where R = "(=)"]) (simp_all add: assms)


section \<open>The claims\<close>

text \<open>
  C1, at a length beyond the range of the counter. The generator has the one-symbol
  charset \<^verbatim>\<open>"a"\<close> and a strategy that always returns index 0, which is below the size
  of the charset; the buffer holds \<open>2 ^ 31 + 1\<close> symbols \<^verbatim>\<open>'x'\<close> and
  \<open>outSize = 2 ^ 31 + 1\<close>. The call returns after \<open>2 ^ 31\<close> passes: the counter has
  wrapped to the least \<^verbatim>\<open>int\<close>, which converted to \<^verbatim>\<open>size_t\<close> is not below
  \<open>outSize\<close>. It has written \<open>2 ^ 31\<close> symbols, and the last element of the buffer is
  still \<^verbatim>\<open>'x'\<close>. For \<open>outSize \<le> 2 ^ 31\<close> exactly \<open>outSize\<close> symbols of the
  charset are written (\<open>get_in_range\<close>, \<open>get_T_in_range\<close>).
\<close>

theorem get_beyond_counter_range:
  "get a_gen (replicate (2 ^ 31 + 1) 120) (2 ^ 31 + 1) (initial_process ()) =
     Inr (replicate (2 ^ 31) 97 @ [120],
          (initial_process ())\<lparr>trace := iterations 1 0 (2 ^ 31)\<rparr>)"
proof -
  have "get a_gen (replicate (2 ^ 31 + 1) 120) (2 ^ 31 + 1) (initial_process ()) =
     Inr (replicate (2 ^ 31) 97 @ drop (2 ^ 31) (replicate (2 ^ 31 + 1) 120),
          (initial_process ())\<lparr>trace := trace (initial_process ()) @ iterations 1 0 (2 ^ 31)\<rparr>)"
    by (rule a_gen_get) simp_all
  then show ?thesis by (simp add: initial_process_sel)
qed

text \<open>
  C2, in a process that constructs generators of two symbol types, as \<^verbatim>\<open>main\<close>
  does. The once-flag is a function-local static of the constructor of a class
  template, so \<^verbatim>\<open>RandomStringGeneratorBase<char>\<close> and
  \<^verbatim>\<open>RandomStringGeneratorBase<wchar_t>\<close> each have their own. With the macro at 0,
  two constructions for \<^verbatim>\<open>char\<close> followed by one for \<^verbatim>\<open>wchar_t\<close> call the seed
  strategy twice: in the first construction of each type. Within one type the call
  happens once (\<open>auto_seed_once_within_instantiation\<close>).
\<close>

theorem auto_seed_two_instantiations:
  "trace (snd (RandomStringGeneratorBase 0 T_wchar_t [1 :: 32 word] Suc always_zero
           (snd (construct_all 0 T_char
              [([1 :: char8], Suc, always_zero), ([2], Suc, always_zero)]
              (initial_process (0 :: nat))))))
     = [SeedCall, SeedCall]
   \<and> env (snd (RandomStringGeneratorBase 0 T_wchar_t [1 :: 32 word] Suc always_zero
           (snd (construct_all 0 T_char
              [([1 :: char8], Suc, always_zero), ([2], Suc, always_zero)]
              (initial_process (0 :: nat)))))) = 2"
  by (simp add: RandomStringGeneratorBase_def Let_def Seed_def initial_process_def)

text \<open>
  C3, on the arrays of \<^verbatim>\<open>main\<close>. The vector of the 36 symbols and a pointer to the
  36 symbols followed by a terminator give the charset of the 36 symbols. The named
  array of the 36 symbols without a terminator (lines 201 to 205) runs the overload for
  \<^verbatim>\<open>TChar const*\<close>, which reads past the end of the array: undefined. The named
  array of the 36 symbols and a terminator (line 185) runs the same overload and gives
  the 36 symbols, without the terminator that the array holds as data.
\<close>

theorem named_array_runs_pointer_overload:
  "charset_of (construct_from 0 T_char (Container main_charset) id always_zero
      (initial_process ())) = Inr main_charset
   \<and> charset_of (construct_from 0 T_char (CString (main_charset @ [0])) id always_zero
      (initial_process ())) = Inr main_charset
   \<and> charset_of (construct_from 0 T_char (ConstArray main_charset) id always_zero
      (initial_process ())) = Inl Unterminated
   \<and> charset_of (construct_from 0 T_char (ConstArray (main_charset @ [0])) id always_zero
      (initial_process ())) = Inr main_charset"
  by code_simp

text \<open>
  C4, on \<^verbatim>\<open>const char cs[] = "ab"\<close>. The array has 3 elements, the last one the
  terminator. The construction from \<^verbatim>\<open>cs\<close> runs the overload for
  \<^verbatim>\<open>TChar const*\<close> and stores the charset \<^verbatim>\<open>"ab"\<close> of 2 symbols. The body of the
  array overload would keep all 3 (\<open>array_overload_keeps_every_element\<close>); only a
  braced list runs it.
\<close>

theorem literal_array_loses_terminator:
  "length (string_literal ''ab'') = 3
   \<and> charset_of (construct_from 0 T_char (ConstArray (string_literal ''ab'')) id always_zero
      (initial_process ())) = Inr [97, 98]
   \<and> map_sum id length (charset_of (construct_from 0 T_char (ConstArray (string_literal ''ab''))
      id always_zero (initial_process ()))) = Inr 2"
  by code_simp




text \<open>
  C6, at a length beyond the range of the counter. With charset \<^verbatim>\<open>"a"\<close> and the
  strategy that always returns index 0, the container form with \<open>outSize = 2 ^ 31 + 1\<close>
  returns \<open>2 ^ 31\<close> times the first symbol followed by one \<^verbatim>\<open>TChar()\<close>, the value
  the container was initialised with: the loop stops after \<open>2 ^ 31\<close> passes. For
  \<open>outSize \<le> 2 ^ 31\<close> the result is the first symbol \<open>outSize\<close> times
  (\<open>get_T_always_first\<close>, \<open>get_always_first\<close>).
\<close>

theorem get_T_beyond_counter_range:
  "get_T a_gen (2 ^ 31 + 1) (initial_process ()) =
     Inr (replicate (2 ^ 31) 97 @ [0],
          (initial_process ())\<lparr>trace := iterations 1 0 (2 ^ 31)\<rparr>)"
proof -
  have "get a_gen (replicate (2 ^ 31 + 1) 0) (2 ^ 31 + 1) (initial_process ()) =
     Inr (replicate (2 ^ 31) 97 @ drop (2 ^ 31) (replicate (2 ^ 31 + 1) 0),
          (initial_process ())\<lparr>trace := trace (initial_process ()) @ iterations 1 0 (2 ^ 31)\<rparr>)"
    by (rule a_gen_get) simp_all
  then show ?thesis by (simp add: initial_process_sel get_T_fresh)
qed



text \<open>
  C8. For a generator with a non-empty charset (of a length that a \<^verbatim>\<open>size_t\<close> can
  hold, as every \<^verbatim>\<open>std::basic_string\<close> has), the events of a call of either form of
  \<^verbatim>\<open>get\<close> extend the trace, and every call of the random strategy among them has
  the size of the charset as its argument, which is the length of the charset and
  greater than zero. This holds for calls that return and for calls that end in a
  fault.
\<close>

theorem rand_called_with_charset_size_only:
  assumes "charset g \<noteq> []" and "length (charset g) < 2 ^ 64"
  shows "(\<exists>tr. trace (final_process (get g out outSize p)) = trace p @ tr
            \<and> (\<forall>n \<in> set (rand_args tr).
                  n = size_of (charset g) \<and> unat n = length (charset g) \<and> 0 < n))
       \<and> (\<exists>tr. trace (final_process (get_T g outSize p)) = trace p @ tr
            \<and> (\<forall>n \<in> set (rand_args tr).
                  n = size_of (charset g) \<and> unat n = length (charset g) \<and> 0 < n))"
proof -
  note sz = size_of_exact [OF assms]
  have one: "\<exists>tr. trace (final_process (get g buf L p)) = trace p @ tr
            \<and> (\<forall>n \<in> set (rand_args tr).
                  n = size_of (charset g) \<and> unat n = length (charset g) \<and> 0 < n)" for buf L
  proof -
    from get_loop_rand_args [of g 0 L buf p] obtain tr where
      tr: "trace (final_process (get g buf L p)) = trace p @ tr"
        "set (rand_args tr) \<subseteq> {size_of (charset g)}"
      by (auto simp: get_def)
    from tr(2) sz have "\<forall>n \<in> set (rand_args tr).
        n = size_of (charset g) \<and> unat n = length (charset g) \<and> 0 < n"
      by auto
    with tr(1) show ?thesis by blast
  qed
  show ?thesis using one [of out outSize] one [of "replicate (unat outSize) 0" outSize]
    by (simp only: get_T_fresh) 
qed

text \<open>C8 on charset \<^verbatim>\<open>"a"\<close> and a buffer of two symbols.\<close>

theorem rand_called_with_charset_size_only_witness:
  "charset a_gen \<noteq> [] \<and> length (charset a_gen) < 2 ^ 64
   \<and> set (rand_args (trace (final_process (get a_gen [120, 120] 2 (initial_process ())))))
       \<subseteq> {size_of (charset a_gen)}
   \<and> 0 < size_of (charset a_gen)"
proof -
  have h: "charset a_gen \<noteq> []" "length (charset a_gen) < 2 ^ 64"
    by (simp_all add: a_gen_def)
  have call: "rand_args (trace (final_process (get a_gen [120, 120] 2 (initial_process ()))))
      = [1, 1]"
    by code_simp
  show ?thesis
    using h rand_called_with_charset_size_only [OF h, of "[120, 120]" 2 "initial_process ()"]
    by (auto simp: initial_process_sel call)
qed

text \<open>
  C9. The generator constructed from the literal \<^verbatim>\<open>"ab"\<close> through the pointer
  overload, with the strategy that returns 0, 1, 0, 1, ..., has charset \<^verbatim>\<open>"ab"\<close>,
  and both forms of \<^verbatim>\<open>get\<close> with length 4 produce \<^verbatim>\<open>"abab"\<close>.
\<close>

theorem ab_cycling_gives_abab:
  "map_sum fst (\<lambda>(g, p). (charset g, map_sum fst fst (get_T g 4 p),
        map_sum fst fst (get g [0, 0, 0, 0] 4 p)))
     (RandomStringGeneratorBase_cstr 0 T_char (string_literal ''ab'') id cycling
        (initial_process 0))
   = Inr (map of_char ''ab'', Inr (map of_char ''abab''), Inr (map of_char ''abab''))"
  by code_simp

text \<open>
  C10 as amended. The strategy returns indices that \<^verbatim>\<open>_charset[...]\<close> may read, and
  the buffer has at least \<open>outSize\<close> elements. For \<open>outSize \<le> 2 ^ 31\<close> the call
  returns after exactly \<open>outSize\<close> passes, which assign to \<^verbatim>\<open>out[0]\<close>, ...,
  \<^verbatim>\<open>out[outSize - 1]\<close> once each, in this order. For
  \<open>2 ^ 31 < outSize \<le> 2 ^ 64 - 2 ^ 31\<close> it returns after exactly \<open>2 ^ 31\<close> passes.
  For larger \<open>outSize\<close> the wrapped counter is still below \<open>outSize\<close>, and the pass
  after the first \<open>2 ^ 31\<close> calls the strategy and assigns before the start of the
  buffer.
\<close>

theorem get_iteration_count:
  assumes "\<forall>e. unat (fst (rand g (size_of (charset g)) e)) \<le> length (charset g)"
    and "unat outSize \<le> length out"
  shows "(unat outSize \<le> 2 ^ 31 \<longrightarrow>
            \<not> isl (get g out outSize p)
            \<and> trace (final_process (get g out outSize p)) =
                trace p @ iterations (size_of (charset g)) 0 (unat outSize))
       \<and> (2 ^ 31 < unat outSize \<and> unat outSize \<le> 2 ^ 64 - 2 ^ 31 \<longrightarrow>
            \<not> isl (get g out outSize p)
            \<and> trace (final_process (get g out outSize p)) =
                trace p @ iterations (size_of (charset g)) 0 (2 ^ 31))
       \<and> (2 ^ 64 - 2 ^ 31 < unat outSize \<longrightarrow>
            map_sum fst fst (get g out outSize p) = Inl BufferOutOfRange
            \<and> trace (final_process (get g out outSize p)) =
                trace p @ iterations (size_of (charset g)) 0 (2 ^ 31)
                  @ [RandCall (size_of (charset g))])"
proof (intro conjI impI)
  assume a: "unat outSize \<le> 2 ^ 31"
  then have L: "unat outSize \<le> 2 ^ 64 - 2 ^ 31" "unat outSize = min (unat outSize) (2 ^ 31)"
    by simp_all
  note e = get_exact [OF assms(1) assms(2) L]
  show "\<not> isl (get g out outSize p)" by (simp add: e)
  show "trace (final_process (get g out outSize p)) =
      trace p @ iterations (size_of (charset g)) 0 (unat outSize)"
    by (simp add: e final_process_def)
next
  assume a: "2 ^ 31 < unat outSize \<and> unat outSize \<le> 2 ^ 64 - 2 ^ 31"
  then have L: "unat outSize \<le> 2 ^ 64 - 2 ^ 31" "2 ^ 31 = min (unat outSize) (2 ^ 31)"
    and cap: "2 ^ 31 \<le> length out" using assms(2) by simp_all
  note e = get_exact [OF assms(1) cap L]
  show "\<not> isl (get g out outSize p)" by (simp add: e)
  show "trace (final_process (get g out outSize p)) =
      trace p @ iterations (size_of (charset g)) 0 (2 ^ 31)"
    by (simp add: e final_process_def)
next
  assume a: "2 ^ 64 - 2 ^ 31 < unat outSize"
  then have cap: "2 ^ 31 \<le> length out" using assms(2) by simp
  note e = get_wrapped_exact [OF assms(1) cap a refl]
  show "map_sum fst fst (get g out outSize p) = Inl BufferOutOfRange"
    using e by blast
  show "trace (final_process (get g out outSize p)) =
      trace p @ iterations (size_of (charset g)) 0 (2 ^ 31) @ [RandCall (size_of (charset g))]"
    using e by blast
qed

text \<open>C10 as amended, on charset \<^verbatim>\<open>"a"\<close> and a buffer of two symbols.\<close>

theorem get_iteration_count_witness:
  "(\<forall>e. unat (fst (rand a_gen (size_of (charset a_gen)) e)) \<le> length (charset a_gen))
   \<and> unat (2 :: size_t) \<le> length [120, 120 :: char8]
   \<and> unat (2 :: size_t) \<le> 2 ^ 31
   \<and> \<not> isl (get a_gen [120, 120] 2 (initial_process ()))
   \<and> trace (final_process (get a_gen [120, 120] 2 (initial_process ()))) =
       [RandCall 1, Write 0, RandCall 1, Write 1]"
proof -
  have ok: "\<forall>e. unat (fst (rand a_gen (size_of (charset a_gen)) e)) \<le> length (charset a_gen)"
    by (simp add: a_gen_def always_zero_def)
  have cap: "unat (2 :: size_t) \<le> length [120, 120 :: char8]" by simp
  have it: "iterations (size_of (charset a_gen)) 0 2
      = [RandCall 1, Write 0, RandCall 1, Write 1]"
    by (simp add: iterations_def a_gen_def size_of_def upt_conv_Cons)
  show ?thesis
    using ok cap get_iteration_count [OF ok cap, of "initial_process ()"]
    by (simp add: it initial_process_sel)
qed

text \<open>
  C10 as stated fails at \<open>outSize = 2 ^ 31\<close>, which is greater than the largest
  \<^verbatim>\<open>int\<close>: the counter passes through 0, ..., \<open>2 ^ 31 - 1\<close>, each below
  \<open>outSize\<close>, and wraps only in the increment after the last pass. The call returns
  after exactly \<open>2 ^ 31\<close> passes with every element of the buffer assigned.
\<close>

theorem get_at_counter_range_end:
  "get a_gen (replicate (2 ^ 31) 0) (2 ^ 31) (initial_process ()) =
     Inr (replicate (2 ^ 31) 97, (initial_process ())\<lparr>trace := iterations 1 0 (2 ^ 31)\<rparr>)"
proof -
  have "get a_gen (replicate (2 ^ 31) 0) (2 ^ 31) (initial_process ()) =
     Inr (replicate (2 ^ 31) 97 @ drop (2 ^ 31) (replicate (2 ^ 31) 0),
          (initial_process ())\<lparr>trace := trace (initial_process ()) @ iterations 1 0 (2 ^ 31)\<rparr>)"
    by (rule a_gen_get) simp_all
  then show ?thesis by (simp add: initial_process_sel)
qed

end
